theory Spec2Isabelle
  imports Complex_Main
begin

section \<open>Exceptions, files and the world\<close>

text \<open>
  A shallow embedding of \<^verbatim>\<open>mistral.py\<close>. A Python exception is a value: its class, the
  \<^verbatim>\<open>status_code\<close> attribute when it has one, and its message. Two exceptions are the same
  object in the model when they are equal as values. Every exception of the model is an
  instance of \<^verbatim>\<open>Exception\<close>: asynchronous interrupts (\<^verbatim>\<open>KeyboardInterrupt\<close>,
  \<^verbatim>\<open>SystemExit\<close>) are outside the model.
\<close>

datatype exn_class =
    MistralAPIException
  | ConnectionError
  | ZeroDivisionError
  | TypeError
  | ValueError
  | FileNotFoundError
  | PdfReadError
  | OtherException

datatype exn = Exn (exn_class: exn_class) (status_code: "int option") (message: string)

type_synonym path = string

datatype page = Page nat

datatype content = Pdf "page list" | Text string

text \<open>
  The world a function runs in: the state of the remote service (anything the opaque
  collaborators depend on) and the files. Directories are not modelled: creating a directory
  and opening a file for writing always succeed. Of the console output only the final report
  of \<^verbatim>\<open>process_pdf_in_chunks\<close> is modelled.
\<close>

record 'r world =
  remote :: 'r
  files :: "path \<rightharpoonup> content"

text \<open>
  The pure library functions the program calls are parameters of the model: \<^verbatim>\<open>os.path.join\<close>,
  \<^verbatim>\<open>os.path.dirname\<close>, \<^verbatim>\<open>os.path.basename\<close>, \<^verbatim>\<open>os.path.splitext(p)[0]\<close> as
  \<open>splitext_root\<close>, \<^verbatim>\<open>Path(p).stem\<close> and \<^verbatim>\<open>base64.b64encode(bytes).decode()\<close>.
\<close>

record library =
  join :: "path \<Rightarrow> path \<Rightarrow> path"
  dirname :: "path \<Rightarrow> path"
  basename :: "path \<Rightarrow> path"
  splitext_root :: "path \<Rightarrow> path"
  stem :: "path \<Rightarrow> string"
  b64encode :: "content \<Rightarrow> string"

definition exists :: "'r world \<Rightarrow> path \<Rightarrow> bool" where
  "exists w p = (files w p \<noteq> None)"

definition write_file :: "path \<Rightarrow> content \<Rightarrow> 'r world \<Rightarrow> 'r world" where
  "write_file p c w = w\<lparr>files := (files w)(p \<mapsto> c)\<rparr>"

section \<open>split_pdf\<close>

text \<open>
  \<^verbatim>\<open>math.ceil(a / b)\<close> on Python ints: \<^verbatim>\<open>ZeroDivisionError\<close> when \<^verbatim>\<open>b == 0\<close>, otherwise
  the ceiling of the quotient. The quotient is a float in the source; for operands below
  \<open>2^53\<close> (any page count) its ceiling is the exact one, which is what the model computes.
  \<open>div\<close> on \<open>int\<close> rounds down, as Python's \<^verbatim>\<open>//\<close> does.
\<close>

definition ceil_div :: "int \<Rightarrow> int \<Rightarrow> exn + int" where
  "ceil_div a b =
     (if b = 0 then Inl (Exn ZeroDivisionError None ''division by zero'')
      else Inr (- ((- a) div b)))"

definition py_range :: "int \<Rightarrow> int list" where
  "py_range n = map int [0..<nat n]"

text \<open>The decimal digits of a natural number, and the format \<^verbatim>\<open>{i+1:03d}\<close>.\<close>

definition digit_char :: "nat \<Rightarrow> char" where
  "digit_char d = char_of (48 + d)"

fun digits :: "nat \<Rightarrow> string" where
  "digits n = (if n < 10 then [digit_char n] else digits (n div 10) @ [digit_char (n mod 10)])"

definition fmt_03d :: "int \<Rightarrow> string" where
  "fmt_03d k = (let ds = digits (nat k) in replicate (3 - length ds) (CHR ''0'') @ ds)"

text \<open>
  One iteration of the loop of \<^verbatim>\<open>split_pdf\<close>, for the 0-based index \<open>i\<close>: the page range
  \<^verbatim>\<open>range(start_page, end_page)\<close>, the pages added to the writer and the path of the chunk
  file.
\<close>

record chunk =
  start_page :: int
  end_page :: int
  chunk_pages :: "page list"
  chunk_file :: path

text \<open>
  \<^verbatim>\<open>pdf.pages[page_num]\<close> raises \<^verbatim>\<open>IndexError\<close> outside \<open>-n \<le> page_num < n\<close>. Theorem
  \<open>split_pdf_partition\<close> below shows that every range the loop reads lies within
  \<open>0 \<le> page_num < n\<close>, where the read is \<open>!\<close>.
\<close>

definition read_pages :: "page list \<Rightarrow> int \<Rightarrow> int \<Rightarrow> page list" where
  "read_pages pages s e = map (\<lambda>page_num. pages ! nat page_num) [s..e - 1]"

definition make_chunk :: "library \<Rightarrow> path \<Rightarrow> path \<Rightarrow> page list \<Rightarrow> int \<Rightarrow> int \<Rightarrow> chunk" where
  "make_chunk P output_dir base_filename pages pages_per_chunk i =
     (let s = i * pages_per_chunk;
          e = min ((i + 1) * pages_per_chunk) (int (length pages))
      in \<lparr>start_page = s, end_page = e, chunk_pages = read_pages pages s e,
          chunk_file = join P output_dir
                          (base_filename @ ''_chunk_'' @ fmt_03d (i + 1) @ ''.pdf'')\<rparr>)"

definition read_pdf :: "'r world \<Rightarrow> path \<Rightarrow> exn + page list" where
  "read_pdf w p =
     (case files w p of
        None \<Rightarrow> Inl (Exn FileNotFoundError None p)
      | Some (Text t) \<Rightarrow> Inl (Exn PdfReadError None p)
      | Some (Pdf pages) \<Rightarrow> Inr pages)"

definition default_dir :: "library \<Rightarrow> path \<Rightarrow> path option \<Rightarrow> path" where
  "default_dir P pdf_path output_dir =
     (case output_dir of
        None \<Rightarrow> join P (dirname P pdf_path) ''split_pdfs''
      | Some d \<Rightarrow> if d = [] then join P (dirname P pdf_path) ''split_pdfs'' else d)"

text \<open>\<^verbatim>\<open>pages_per_chunk = max(1, math.ceil(total_pages / num_chunks))\<close>\<close>

definition pages_per_chunk :: "int \<Rightarrow> int \<Rightarrow> exn + int" where
  "pages_per_chunk total_pages num_chunks =
     (case ceil_div total_pages num_chunks of Inl e \<Rightarrow> Inl e | Inr c \<Rightarrow> Inr (max 1 c))"

text \<open>
  The chunks the loop of \<^verbatim>\<open>split_pdf\<close> produces for a document that has been read, in the
  order of the loop.
\<close>

definition split_chunks ::
  "library \<Rightarrow> path \<Rightarrow> path option \<Rightarrow> int \<Rightarrow> page list \<Rightarrow> exn + chunk list" where
  "split_chunks P pdf_path output_dir num_chunks pages =
     (case pages_per_chunk (int (length pages)) num_chunks of
        Inl e \<Rightarrow> Inl e
      | Inr ppc \<Rightarrow>
          (case ceil_div (int (length pages)) ppc of
             Inl e \<Rightarrow> Inl e
           | Inr actual_chunks \<Rightarrow>
               Inr (map (make_chunk P (default_dir P pdf_path output_dir)
                           (splitext_root P (basename P pdf_path)) pages ppc)
                      (py_range actual_chunks))))"

definition write_chunks :: "chunk list \<Rightarrow> 'r world \<Rightarrow> 'r world" where
  "write_chunks cs w = fold (\<lambda>c. write_file (chunk_file c) (Pdf (chunk_pages c))) cs w"

definition split_pdf ::
  "library \<Rightarrow> path \<Rightarrow> path option \<Rightarrow> int \<Rightarrow> 'r world \<Rightarrow> (exn + path list) \<times> 'r world" where
  "split_pdf P pdf_path output_dir num_chunks w =
     (case read_pdf w pdf_path of
        Inl e \<Rightarrow> (Inl e, w)
      | Inr pages \<Rightarrow>
          (case split_chunks P pdf_path output_dir num_chunks pages of
             Inl e \<Rightarrow> (Inl e, w)
           | Inr cs \<Rightarrow> (Inr (map chunk_file cs), write_chunks cs w)))"

section \<open>retry_on_error\<close>

text \<open>
  The effects of a function are recorded in a log of its own, which the operation it calls
  cannot touch: each call of the operation and each \<^verbatim>\<open>time.sleep\<close>. \<^verbatim>\<open>time.sleep\<close> raises
  \<^verbatim>\<open>ValueError\<close> for a negative duration and sleeps otherwise. Durations are Python floats;
  the model computes with reals, so the rounding of \<^verbatim>\<open>delay *= backoff_factor\<close> is not
  modelled. Console output of the decorator is not modelled.
\<close>

datatype 'a event = Invoke 'a | Sleep real

definition sleep :: "real \<Rightarrow> 'a event list \<Rightarrow> exn + 'a event list" where
  "sleep secs l =
     (if secs < 0 then Inl (Exn ValueError None ''sleep length must be non-negative'')
      else Inr (l @ [Sleep secs]))"

record retry_policy =
  max_retries :: int
  initial_delay :: real
  backoff_factor :: real
  retry_on_exceptions :: "exn_class list"

text \<open>\<^verbatim>\<open>raise last_exception\<close>: raising \<^verbatim>\<open>None\<close> is a \<^verbatim>\<open>TypeError\<close>.\<close>

definition raise_value :: "exn option \<Rightarrow> exn" where
  "raise_value last_exception =
     (case last_exception of
        None \<Rightarrow> Exn TypeError None ''exceptions must derive from BaseException''
      | Some e \<Rightarrow> e)"

text \<open>
  The loop \<^verbatim>\<open>for retry in range(max_retries + 1)\<close> of \<^verbatim>\<open>wrapper\<close>, on the values of \<^verbatim>\<open>retry\<close>
  still to come. \<open>name\<close> is the name of the wrapped function, which labels its calls in the
  log. The operation \<open>func\<close> runs on a state \<open>'s\<close> and returns or raises.
\<close>

fun retry_loop ::
  "retry_policy \<Rightarrow> 'n \<Rightarrow> ('s \<Rightarrow> (exn + 'a) \<times> 's) \<Rightarrow> int list \<Rightarrow> real \<Rightarrow> exn option \<Rightarrow>
     's \<times> 'n event list \<Rightarrow> (exn + 'a) \<times> 's \<times> 'n event list" where
  "retry_loop R name func [] delay last_exception (s, l) =
     (Inl (raise_value last_exception), s, l)"
| "retry_loop R name func (retry # rest) delay last_exception (s, l) =
     (case func s of
        (Inr v, s') \<Rightarrow> (Inr v, s', l @ [Invoke name])
      | (Inl e, s') \<Rightarrow>
          if exn_class e \<in> set (retry_on_exceptions R) then
            if retry < max_retries R then
              (case sleep delay (l @ [Invoke name]) of
                 Inl e' \<Rightarrow> (Inl e', s', l @ [Invoke name])
               | Inr l' \<Rightarrow>
                   retry_loop R name func rest (delay * backoff_factor R) (Some e) (s', l'))
            else (Inl (raise_value (Some e)), s', l @ [Invoke name])
          else (Inl e, s', l @ [Invoke name]))"

definition retry_on_error ::
  "retry_policy \<Rightarrow> 'n \<Rightarrow> ('s \<Rightarrow> (exn + 'a) \<times> 's) \<Rightarrow>
     's \<times> 'n event list \<Rightarrow> (exn + 'a) \<times> 's \<times> 'n event list" where
  "retry_on_error R name func sl =
     retry_loop R name func (py_range (max_retries R + 1)) (initial_delay R) None sl"

text \<open>\<^verbatim>\<open>@retry_on_error(max_retries=3, initial_delay=2.0)\<close>, with the defaults of the rest.\<close>

definition api_retry :: retry_policy where
  "api_retry = \<lparr>max_retries = 3, initial_delay = 2, backoff_factor = 2,
                 retry_on_exceptions = [MistralAPIException, ConnectionError]\<rparr>"


section \<open>The remote service and the conversion of one document\<close>

text \<open>
  The Mistral client is an opaque collaborator: each of its operations runs on the state of
  the remote service and returns or raises. \<open>new_client\<close> is \<^verbatim>\<open>Mistral(api_key=...)\<close>,
  \<open>files_upload\<close> is \<^verbatim>\<open>client.files.upload\<close> and returns the id of the uploaded file,
  \<open>files_get_signed_url\<close> returns the \<^verbatim>\<open>url\<close> of the signed URL, \<open>ocr_process\<close> is
  \<^verbatim>\<open>client.ocr.process\<close>. Of an OCR response the program reads the markdown of each page
  and calls \<^verbatim>\<open>model_dump_json()\<close>, which returns or raises.
\<close>

datatype document = DocumentURLChunk string | ImageURLChunk string

record ocr_response =
  page_markdowns :: "string list"
  model_dump_json :: "exn + string"

record 'r service =
  new_client :: "string \<Rightarrow> 'r \<Rightarrow> exn option \<times> 'r"
  files_upload :: "string \<Rightarrow> content \<Rightarrow> 'r \<Rightarrow> (exn + string) \<times> 'r"
  files_get_signed_url :: "string \<Rightarrow> 'r \<Rightarrow> (exn + string) \<times> 'r"
  ocr_process :: "document \<Rightarrow> string \<Rightarrow> 'r \<Rightarrow> (exn + ocr_response) \<times> 'r"

definition on_remote :: "('r \<Rightarrow> 'x \<times> 'r) \<Rightarrow> 'r world \<Rightarrow> 'x \<times> 'r world" where
  "on_remote f w = (case f (remote w) of (x, r) \<Rightarrow> (x, w\<lparr>remote := r\<rparr>))"

text \<open>The state of a conversion: the world and the log of the decorated functions.\<close>

type_synonym 'r st = "'r world \<times> string event list"

text \<open>\<^verbatim>\<open>"\n\n"\<close> and \<^verbatim>\<open>sep.join(xs)\<close>.\<close>

definition blank_line :: string where
  "blank_line = [CHR 0x0A, CHR 0x0A]"

fun str_join :: "string \<Rightarrow> string list \<Rightarrow> string" where
  "str_join sep [] = []"
| "str_join sep [x] = x"
| "str_join sep (x # y # ys) = x @ sep @ str_join sep (y # ys)"

definition get_combined_markdown :: "ocr_response \<Rightarrow> string" where
  "get_combined_markdown ocr_response = str_join blank_line (page_markdowns ocr_response)"

text \<open>
  The body of \<^verbatim>\<open>upload_file_to_ocr_service\<close>: \<^verbatim>\<open>file_path.read_bytes()\<close>, the upload, the
  signed URL. Its handler of \<^verbatim>\<open>MistralAPIException\<close> prints and raises the same exception
  again.
\<close>

definition upload_file_to_ocr_service_func ::
  "library \<Rightarrow> 'r service \<Rightarrow> path \<Rightarrow> 'r world \<Rightarrow> (exn + string) \<times> 'r world" where
  "upload_file_to_ocr_service_func P S file_path w =
     (case files w file_path of
        None \<Rightarrow> (Inl (Exn FileNotFoundError None file_path), w)
      | Some c \<Rightarrow>
          (case on_remote (files_upload S (stem P file_path) c) w of
             (Inl e, w') \<Rightarrow> (Inl e, w')
           | (Inr file_id, w') \<Rightarrow> on_remote (files_get_signed_url S file_id) w'))"

definition upload_file_to_ocr_service ::
  "library \<Rightarrow> 'r service \<Rightarrow> path \<Rightarrow> 'r st \<Rightarrow> (exn + string) \<times> 'r st" where
  "upload_file_to_ocr_service P S file_path =
     retry_on_error api_retry ''upload_file_to_ocr_service''
       (upload_file_to_ocr_service_func P S file_path)"

definition process_with_ocr ::
  "'r service \<Rightarrow> string \<Rightarrow> string \<Rightarrow> 'r st \<Rightarrow> (exn + ocr_response) \<times> 'r st" where
  "process_with_ocr S document_url model =
     retry_on_error api_retry ''process_with_ocr''
       (on_remote (ocr_process S (DocumentURLChunk document_url) model))"


text \<open>
  \<^verbatim>\<open>if not output_path: output_path = os.path.splitext(path)[0] + ".md"\<close>: \<^verbatim>\<open>None\<close> and the
  empty string are false.
\<close>

definition resolve_output_path :: "library \<Rightarrow> path \<Rightarrow> path option \<Rightarrow> path" where
  "resolve_output_path P input_path output_path =
     (case output_path of
        None \<Rightarrow> splitext_root P input_path @ ''.md''
      | Some p \<Rightarrow> if p = [] then splitext_root P input_path @ ''.md'' else p)"

text \<open>
  The end of the \<^verbatim>\<open>try\<close> block of \<^verbatim>\<open>convert_pdf_to_markdown\<close> and of
  \<^verbatim>\<open>convert_image_to_markdown\<close>, after the OCR response has arrived (the same statements in
  both): combine the markdown, write the output file, read the usage information from
  \<^verbatim>\<open>json.loads(response.model_dump_json())\<close>, return the output path. An exception of the
  last step is raised after the file has been written.
\<close>

definition save_markdown ::
  "library \<Rightarrow> path \<Rightarrow> path option \<Rightarrow> ocr_response \<Rightarrow> 'r st \<Rightarrow> (exn + path option) \<times> 'r st" where
  "save_markdown P input_path output_path response st =
     (case st of (w, l) \<Rightarrow>
        (let markdown_content = get_combined_markdown response;
             output_path' = resolve_output_path P input_path output_path;
             w' = write_file output_path' (Text markdown_content) w
         in case model_dump_json response of
              Inl e \<Rightarrow> (Inl e, (w', l))
            | Inr response_json \<Rightarrow> (Inr (Some output_path'), (w', l))))"

text \<open>
  The outer \<^verbatim>\<open>try\<close> block of \<^verbatim>\<open>convert_pdf_to_markdown\<close>. The two inner handlers
  (\<^verbatim>\<open>except Exception: ... return None\<close>) turn a failed upload and a failed OCR call into the
  return value \<^verbatim>\<open>None\<close>.
\<close>

definition convert_pdf_try ::
  "library \<Rightarrow> 'r service \<Rightarrow> string \<Rightarrow> path \<Rightarrow> path option \<Rightarrow> string \<Rightarrow> 'r st \<Rightarrow>
     (exn + path option) \<times> 'r st" where
  "convert_pdf_try P S api_key pdf_path output_path model st =
     (case st of (w, l) \<Rightarrow>
        (case on_remote (new_client S api_key) w of
           (Some e, w1) \<Rightarrow> (Inl e, (w1, l))
         | (None, w1) \<Rightarrow>
             (case upload_file_to_ocr_service P S pdf_path (w1, l) of
                (Inl e, st2) \<Rightarrow> (Inr None, st2)
              | (Inr signed_url, st2) \<Rightarrow>
                  (case process_with_ocr S signed_url model st2 of
                     (Inl e, st3) \<Rightarrow> (Inr None, st3)
                   | (Inr pdf_response, st3) \<Rightarrow>
                       save_markdown P pdf_path output_path pdf_response st3))))"

text \<open>
  \<^verbatim>\<open>convert_pdf_to_markdown\<close>: the check of the file, then the \<^verbatim>\<open>try\<close> block under
  \<^verbatim>\<open>except Exception: ... return None\<close>.
\<close>

definition convert_pdf_to_markdown ::
  "library \<Rightarrow> 'r service \<Rightarrow> string \<Rightarrow> path \<Rightarrow> path option \<Rightarrow> string \<Rightarrow> 'r st \<Rightarrow>
     (exn + path option) \<times> 'r st" where
  "convert_pdf_to_markdown P S api_key pdf_path output_path model st =
     (if \<not> exists (fst st) pdf_path then (Inr None, st)
      else (case convert_pdf_try P S api_key pdf_path output_path model st of
              (Inl e, st') \<Rightarrow> (Inr None, st')
            | (Inr r, st') \<Rightarrow> (Inr r, st')))"



text \<open>A step of \<open>convert_pdf_to_markdown\<close> that fails before the output file is written.\<close>

definition pdf_step_fails ::
  "library \<Rightarrow> 'r service \<Rightarrow> string \<Rightarrow> path \<Rightarrow> string \<Rightarrow> 'r st \<Rightarrow> bool" where
  "pdf_step_fails P S api_key pdf_path model st =
     (\<not> exists (fst st) pdf_path
      \<or> (case on_remote (new_client S api_key) (fst st) of
            (Some e, w1) \<Rightarrow> True
          | (None, w1) \<Rightarrow>
              (case upload_file_to_ocr_service P S pdf_path (w1, snd st) of
                 (Inl e, st2) \<Rightarrow> True
               | (Inr signed_url, st2) \<Rightarrow> isl (fst (process_with_ocr S signed_url model st2)))))"


section \<open>process_pdf_in_chunks\<close>

text \<open>
  The loop over the chunks keeps a log of its own: each call of the conversion, labelled
  with the ordinal \<open>i + 1\<close> of the chunk, and each \<^verbatim>\<open>time.sleep\<close> between attempts. The
  conversion is a parameter \<open>conv\<close> of the loop, running on a state \<open>'s\<close>;
  \<open>process_pdf_in_chunks\<close> passes \<open>convert_pdf_to_markdown\<close>. Progress messages are not
  modelled; the messages of the final report are.
\<close>

definition max_chunk_retries :: int where
  "max_chunk_retries = 2"

text \<open>\<^verbatim>\<open>if result_path:\<close> holds for a path that is neither \<^verbatim>\<open>None\<close> nor empty.\<close>

definition truthy :: "path option \<Rightarrow> bool" where
  "truthy p = (case p of None \<Rightarrow> False | Some x \<Rightarrow> x \<noteq> [])"

text \<open>
  The path of the markdown of a chunk: in the directory \<^verbatim>\<open>chunk_outputs\<close> beside
  \<open>output_path\<close> when there is one, else \<^verbatim>\<open>None\<close>.
\<close>

definition chunk_output_path :: "library \<Rightarrow> path option \<Rightarrow> path \<Rightarrow> path option" where
  "chunk_output_path P output_path chunk_path =
     (case output_path of
        None \<Rightarrow> None
      | Some p \<Rightarrow>
          if p = [] then None
          else Some (join P (join P (dirname P p) ''chunk_outputs'')
                       (splitext_root P (basename P chunk_path) @ ''.md'')))"

text \<open>
  The end of a failed attempt, in the \<^verbatim>\<open>else\<close> branch and in the handler
  \<^verbatim>\<open>except Exception\<close> alike: sleep \<open>2 * (retry + 1)\<close> seconds when a retry is left, else
  record the ordinal in \<^verbatim>\<open>failed_chunks\<close>. The duration is positive, so \<^verbatim>\<open>time.sleep\<close> does not
  raise.
\<close>

definition after_failure ::
  "nat \<Rightarrow> int \<Rightarrow> path list \<times> nat list \<Rightarrow> nat event list \<Rightarrow>
     (path list \<times> nat list) \<times> nat event list" where
  "after_failure i retry acc pl =
     (case acc of (chunk_outputs, failed_chunks) \<Rightarrow>
        if retry < max_chunk_retries
        then ((chunk_outputs, failed_chunks), pl @ [Sleep (2 * (real_of_int retry + 1))])
        else ((chunk_outputs, failed_chunks @ [i + 1]), pl))"

text \<open>
  The loop \<^verbatim>\<open>for retry in range(max_chunk_retries + 1)\<close> for the chunk of index \<open>i\<close>, on
  the values of \<^verbatim>\<open>retry\<close> still to come. A result that holds appends to \<^verbatim>\<open>chunk_outputs\<close>
  and leaves the loop (\<^verbatim>\<open>break\<close>).
\<close>

fun retry_chunk ::
  "(path \<Rightarrow> path option \<Rightarrow> 's \<Rightarrow> (exn + path option) \<times> 's) \<Rightarrow> nat \<Rightarrow> path \<Rightarrow> path option \<Rightarrow>
     int list \<Rightarrow> path list \<times> nat list \<Rightarrow> 's \<times> nat event list \<Rightarrow>
     (path list \<times> nat list) \<times> 's \<times> nat event list" where
  "retry_chunk conv i chunk_path chunk_out [] acc sp = (acc, sp)"
| "retry_chunk conv i chunk_path chunk_out (retry # rest) acc (s, pl) =
     (case conv chunk_path chunk_out s of
        (Inr (Some result_path), s') \<Rightarrow>
          if result_path \<noteq> []
          then ((fst acc @ [result_path], snd acc), s', pl @ [Invoke (i + 1)])
          else (case after_failure i retry acc (pl @ [Invoke (i + 1)]) of
                  (acc', pl') \<Rightarrow> retry_chunk conv i chunk_path chunk_out rest acc' (s', pl'))
      | (Inr None, s') \<Rightarrow>
          (case after_failure i retry acc (pl @ [Invoke (i + 1)]) of
             (acc', pl') \<Rightarrow> retry_chunk conv i chunk_path chunk_out rest acc' (s', pl'))
      | (Inl e, s') \<Rightarrow>
          (case after_failure i retry acc (pl @ [Invoke (i + 1)]) of
             (acc', pl') \<Rightarrow> retry_chunk conv i chunk_path chunk_out rest acc' (s', pl')))"

text \<open>The loop \<^verbatim>\<open>for i, chunk_path in enumerate(chunk_paths)\<close>.\<close>

fun process_chunks ::
  "(path \<Rightarrow> path option \<Rightarrow> 's \<Rightarrow> (exn + path option) \<times> 's) \<Rightarrow> library \<Rightarrow> path option \<Rightarrow>
     (nat \<times> path) list \<Rightarrow> path list \<times> nat list \<Rightarrow> 's \<times> nat event list \<Rightarrow>
     (path list \<times> nat list) \<times> 's \<times> nat event list" where
  "process_chunks conv P output_path [] acc sp = (acc, sp)"
| "process_chunks conv P output_path ((i, chunk_path) # rest) acc sp =
     (case retry_chunk conv i chunk_path (chunk_output_path P output_path chunk_path)
             (py_range (max_chunk_retries + 1)) acc sp of
        (acc', sp') \<Rightarrow> process_chunks conv P output_path rest acc' sp')"

text \<open>
  Reading a chunk output as text, and the loop that writes each chunk output and a blank
  line to the combined file. Writes reach the file at once (buffering is not modelled).
\<close>

definition read_text :: "'r world \<Rightarrow> path \<Rightarrow> exn + string" where
  "read_text w p =
     (case files w p of
        None \<Rightarrow> Inl (Exn FileNotFoundError None p)
      | Some (Pdf ps) \<Rightarrow> Inl (Exn ValueError None p)
      | Some (Text t) \<Rightarrow> Inr t)"

definition append_text :: "path \<Rightarrow> string \<Rightarrow> 'r world \<Rightarrow> 'r world" where
  "append_text p t w =
     (case files w p of
        Some (Text old) \<Rightarrow> write_file p (Text (old @ t)) w
      | _ \<Rightarrow> write_file p (Text t) w)"

fun combine_chunks :: "path \<Rightarrow> path list \<Rightarrow> 'r world \<Rightarrow> exn option \<times> 'r world" where
  "combine_chunks combined [] w = (None, w)"
| "combine_chunks combined (chunk_output # rest) w =
     (case read_text w chunk_output of
        Inl e \<Rightarrow> (Some e, w)
      | Inr t \<Rightarrow> combine_chunks combined rest (append_text combined blank_line (append_text combined t w)))"

datatype retval = ReturnNone | ReturnPath path | ReturnList "path list"

datatype msg =
    SplitFailed exn
  | Combining nat path
  | Combined path
  | FailedWarning nat "nat list"
  | OutputMayBeIncomplete
  | AllChunksFailed
  | ContentMayBeLost

text \<open>
  The statements after the loop: combine when there are an output path and chunk outputs,
  return \<^verbatim>\<open>None\<close> when no chunk has an output, else return the list of chunk outputs. An
  exception of the combination is not handled.
\<close>

definition report_failed :: "nat list \<Rightarrow> msg \<Rightarrow> msg list" where
  "report_failed failed_chunks note =
     (if failed_chunks \<noteq> [] then [FailedWarning (length failed_chunks) failed_chunks, note]
      else [])"

definition finish_pipeline ::
  "path option \<Rightarrow> path list \<Rightarrow> nat list \<Rightarrow> 'r world \<Rightarrow> (exn + retval) \<times> 'r world \<times> msg list" where
  "finish_pipeline output_path chunk_outputs failed_chunks w =
     (case (if chunk_outputs \<noteq> [] \<and> truthy output_path then output_path else None) of
        Some p \<Rightarrow>
          (case combine_chunks p chunk_outputs (write_file p (Text []) w) of
             (Some e, w') \<Rightarrow> (Inl e, w', [Combining (length chunk_outputs) p])
           | (None, w') \<Rightarrow>
               (Inr (ReturnPath p), w',
                [Combining (length chunk_outputs) p, Combined p]
                  @ report_failed failed_chunks OutputMayBeIncomplete))
      | None \<Rightarrow>
          if chunk_outputs = [] then (Inr ReturnNone, w, [AllChunksFailed])
          else (Inr (ReturnList chunk_outputs), w, report_failed failed_chunks ContentMayBeLost))"

text \<open>
  A run of \<open>process_pdf_in_chunks\<close>: what it returns or raises, the lists \<^verbatim>\<open>chunk_outputs\<close>
  and \<^verbatim>\<open>failed_chunks\<close> at the end of the loop, the state, the log of the loop and the
  messages of the final report.
\<close>

record 'r run =
  returned :: "exn + retval"
  outputs :: "path list"
  failed :: "nat list"
  final_state :: "'r st"
  chunk_log :: "nat event list"
  printed :: "msg list"

definition process_pdf_in_chunks ::
  "library \<Rightarrow> 'r service \<Rightarrow> string \<Rightarrow> path \<Rightarrow> path option \<Rightarrow> int \<Rightarrow> string \<Rightarrow> 'r st \<Rightarrow> 'r run" where
  "process_pdf_in_chunks P S api_key pdf_path output_path num_chunks model st =
     (case split_pdf P pdf_path None num_chunks (fst st) of
        (Inl e, w1) \<Rightarrow>
          \<lparr>returned = Inr ReturnNone, outputs = [], failed = [], final_state = (w1, snd st),
           chunk_log = [], printed = [SplitFailed e]\<rparr>
      | (Inr chunk_paths, w1) \<Rightarrow>
          (case process_chunks (\<lambda>chunk_path chunk_out.
                    convert_pdf_to_markdown P S api_key chunk_path chunk_out model)
                  P output_path (enumerate 0 chunk_paths) ([], []) ((w1, snd st), []) of
             ((chunk_outputs, failed_chunks), (w2, l2), pl) \<Rightarrow>
               (case finish_pipeline output_path chunk_outputs failed_chunks w2 of
                  (r, w3, msgs) \<Rightarrow>
                    \<lparr>returned = r, outputs = chunk_outputs, failed = failed_chunks,
                     final_state = (w3, l2), chunk_log = pl, printed = msgs\<rparr>)))"

section \<open>Inputs for examples\<close>

text \<open>An implementation of the path functions and a world, for evaluating examples.\<close>

definition sample_basename :: "path \<Rightarrow> path" where
  "sample_basename p = rev (takeWhile (\<lambda>c. c \<noteq> CHR ''/'') (rev p))"

definition sample_splitext_root :: "path \<Rightarrow> path" where
  "sample_splitext_root p =
     (if CHR ''.'' \<in> set (sample_basename p)
      then rev (drop 1 (dropWhile (\<lambda>c. c \<noteq> CHR ''.'') (rev p))) else p)"

definition sample_library :: library where
  "sample_library =
     \<lparr>join = (\<lambda>a b. if a = [] then b else a @ ''/'' @ b),
      dirname = (\<lambda>p. rev (drop 1 (dropWhile (\<lambda>c. c \<noteq> CHR ''/'') (rev p)))),
      basename = sample_basename,
      splitext_root = sample_splitext_root,
      stem = (\<lambda>p. sample_splitext_root (sample_basename p)),
      b64encode = (\<lambda>c. ''QUJD'')\<rparr>"

definition sample_world :: "page list \<Rightarrow> unit world" where
  "sample_world pages =
     \<lparr>remote = (), files = [''doc.pdf'' \<mapsto> Pdf pages, ''scan.png'' \<mapsto> Text ''PNG'']\<rparr>"




text \<open>
  A remote service for evaluating examples: uploads succeed, the OCR call raises an exception
  that is not retried for the document \<open>bad\<close> and else returns one page of markdown (the
  URL of the document), and \<^verbatim>\<open>model_dump_json\<close> of a response gives \<open>dump\<close>.
\<close>

definition sample_service :: "string \<Rightarrow> exn + string \<Rightarrow> unit service" where
  "sample_service bad dump =
     \<lparr>new_client = (\<lambda>k r. (None, r)),
      files_upload = (\<lambda>name c r. (Inr name, r)),
      files_get_signed_url = (\<lambda>file_id r. (Inr file_id, r)),
      ocr_process = (\<lambda>d m r.
         if d = DocumentURLChunk bad then (Inl (Exn OtherException (Some 400) ''bad request''), r)
         else (Inr \<lparr>page_markdowns = [case d of DocumentURLChunk u \<Rightarrow> u | ImageURLChunk u \<Rightarrow> u],
                      model_dump_json = dump\<rparr>, r))\<rparr>"

section \<open>Properties of split_pdf\<close>

lemma ceil_div_eq: "b \<noteq> 0 \<Longrightarrow> ceil_div a b = Inr \<lceil>real_of_int a / real_of_int b\<rceil>"
proof -
  have "\<lfloor>real_of_int (- a) / real_of_int b\<rfloor> = (- a) div b"
    by (rule floor_divide_of_int_eq)
  then show "b \<noteq> 0 \<Longrightarrow> ceil_div a b = Inr \<lceil>real_of_int a / real_of_int b\<rceil>"
    by (simp add: ceil_div_def ceiling_def)
qed

lemma ceil_bounds:
  fixes T p :: int
  assumes "1 \<le> p"
  shows "(- ((- T) div p) - 1) * p < T" and "T \<le> - ((- T) div p) * p"
proof -
  define q where "q = (- T) div p"
  have e: "p * q + (- T) mod p = - T" unfolding q_def by (rule mult_div_mod_eq)
  have r: "0 \<le> (- T) mod p" "(- T) mod p < p" using assms by simp_all
  have a: "(- q - 1) * p = - (p * q) - p" "- q * p = - (p * q)" by (simp_all add: algebra_simps)
  show "(- ((- T) div p) - 1) * p < T" unfolding q_def [symmetric] a using e r by linarith
  show "T \<le> - ((- T) div p) * p" unfolding q_def [symmetric] a using e r by linarith
qed

lemma read_pages_take_drop:
  assumes "0 \<le> s" "s \<le> e" "e \<le> int (length pages)"
  shows "read_pages pages s e = take (nat (e - s)) (drop (nat s) pages)"
proof (rule nth_equalityI)
  show "length (read_pages pages s e) = length (take (nat (e - s)) (drop (nat s) pages))"
    using assms by (simp add: read_pages_def)
next
  fix i assume "i < length (read_pages pages s e)"
  then have i: "i < nat (e - s)" by (simp add: read_pages_def)
  then show "read_pages pages s e ! i = take (nat (e - s)) (drop (nat s) pages) ! i"
    using assms by (simp add: read_pages_def nth_upto nat_add_distrib)
qed

lemma take_chunks:
  fixes ppc :: int
  assumes ppc: "1 \<le> ppc" and k: "int k \<le> K" and K: "(K - 1) * ppc < int (length pages)"
  shows "concat (map (\<lambda>i. chunk_pages (make_chunk P d b pages ppc i)) (map int [0..<k]))
           = take (nat (min (int k * ppc) (int (length pages)))) pages"
  using k
proof (induction k)
  case 0
  then show ?case by simp
next
  case (Suc k)
  let ?T = "int (length pages)"
  have lt: "int k * ppc < ?T"
  proof -
    have "int k \<le> K - 1" using Suc.prems by simp
    then have "int k * ppc \<le> (K - 1) * ppc" using ppc by (simp add: mult_right_mono)
    then show ?thesis using K by linarith
  qed
  let ?e = "min ((int k + 1) * ppc) ?T"
  have se: "int k * ppc \<le> ?e" using lt ppc by (simp add: algebra_simps)
  have s0: "0 \<le> int k * ppc" using ppc by simp
  have rp: "chunk_pages (make_chunk P d b pages ppc (int k))
              = take (nat (?e - int k * ppc)) (drop (nat (int k * ppc)) pages)"
    using read_pages_take_drop [OF s0 se] by (simp add: make_chunk_def Let_def)
  have ih: "concat (map (\<lambda>i. chunk_pages (make_chunk P d b pages ppc i)) (map int [0..<k]))
              = take (nat (int k * ppc)) pages"
    using Suc.IH Suc.prems lt by (simp add: min_def)
  have "take (nat (int k * ppc)) pages @ take (nat (?e - int k * ppc)) (drop (nat (int k * ppc)) pages)
          = take (nat (int k * ppc) + nat (?e - int k * ppc)) pages"
    by (simp add: take_add)
  also have "nat (int k * ppc) + nat (?e - int k * ppc) = nat ?e"
    using s0 se by linarith
  finally show ?case using ih rp by (simp add: algebra_simps)
qed

lemma py_range_nth: "i < nat K \<Longrightarrow> py_range K ! i = int i"
  by (simp add: py_range_def)

lemma length_py_range: "length (py_range K) = nat K"
  by (simp add: py_range_def)

text \<open>The shape of one chunk, for an index of the loop.\<close>

lemma make_chunk_shape:
  fixes ppc :: int and P d b
  assumes ppc: "1 \<le> ppc" and i: "0 \<le> i" "i < K" and K: "(K - 1) * ppc < int (length pages)"
  defines "c \<equiv> make_chunk P d b pages ppc i"
  shows "start_page c = i * ppc"
    and "end_page c = min ((i + 1) * ppc) (int (length pages))"
    and "0 \<le> start_page c" and "start_page c < end_page c"
    and "end_page c \<le> int (length pages)"
    and "chunk_pages c = take (nat (end_page c - start_page c)) (drop (nat (start_page c)) pages)"
    and "i + 1 < K \<Longrightarrow> end_page c = (i + 1) * ppc"
proof -
  let ?T = "int (length pages)"
  have mono: "j \<le> K - 1 \<Longrightarrow> j * ppc < ?T" for j
  proof -
    assume "j \<le> K - 1"
    then have "j * ppc \<le> (K - 1) * ppc" using ppc by (simp add: mult_right_mono)
    then show ?thesis using K by linarith
  qed
  show s: "start_page c = i * ppc" and e: "end_page c = min ((i + 1) * ppc) ?T"
    by (simp_all add: c_def make_chunk_def Let_def)
  show s0: "0 \<le> start_page c" using s i ppc by simp
  have "i * ppc < ?T" using mono [of i] i by simp
  moreover have "i * ppc < (i + 1) * ppc" using ppc by (simp add: algebra_simps)
  ultimately show lt: "start_page c < end_page c" using s e by simp
  show le: "end_page c \<le> ?T" using e by simp
  have "chunk_pages c = read_pages pages (start_page c) (end_page c)"
    by (simp add: c_def make_chunk_def Let_def)
  then show "chunk_pages c = take (nat (end_page c - start_page c)) (drop (nat (start_page c)) pages)"
    using read_pages_take_drop [of "start_page c" "end_page c" pages] s0 lt le by simp
  show "i + 1 < K \<Longrightarrow> end_page c = (i + 1) * ppc"
    using mono [of "i + 1"] e by simp
qed

lemma length_chunk_pages:
  fixes ppc :: int
  assumes ppc: "1 \<le> ppc" and i: "0 \<le> i" "i < K" and K: "(K - 1) * ppc < int (length pages)"
  shows "int (length (chunk_pages (make_chunk P d b pages ppc i)))
           = min ((i + 1) * ppc) (int (length pages)) - i * ppc"
proof -
  let ?c = "make_chunk P d b pages ppc i"
  note sh = make_chunk_shape [OF ppc i K, of P d b]
  have "length (chunk_pages ?c) = nat (end_page ?c - start_page ?c)"
    using sh(3,4,5) by (subst sh(6)) simp
  then show ?thesis using sh(1,2,4) by simp
qed

text \<open>What \<open>split_chunks\<close> computes when \<open>num_chunks\<close> is not zero.\<close>

lemma split_chunks_eq:
  fixes pages :: "page list" and num_chunks :: int
  assumes "num_chunks \<noteq> 0"
  defines "ppc \<equiv> max 1 (- ((- int (length pages)) div num_chunks))"
  shows "pages_per_chunk (int (length pages)) num_chunks = Inr ppc"
    and "split_chunks P pdf_path output_dir num_chunks pages =
           Inr (map (make_chunk P (default_dir P pdf_path output_dir)
                       (splitext_root P (basename P pdf_path)) pages ppc)
                  (py_range (- ((- int (length pages)) div ppc))))"
proof -
  show p: "pages_per_chunk (int (length pages)) num_chunks = Inr ppc"
    using assms by (simp add: pages_per_chunk_def ceil_div_def)
  have "ppc \<noteq> 0" by (simp add: ppc_def)
  then show "split_chunks P pdf_path output_dir num_chunks pages =
           Inr (map (make_chunk P (default_dir P pdf_path output_dir)
                       (splitext_root P (basename P pdf_path)) pages ppc)
                  (py_range (- ((- int (length pages)) div ppc))))"
    using p by (simp add: split_chunks_def ceil_div_def)
qed

lemma split_pdf_eq:
  "read_pdf w pdf_path = Inr pages \<Longrightarrow>
   split_chunks P pdf_path output_dir num_chunks pages = Inr cs \<Longrightarrow>
   split_pdf P pdf_path output_dir num_chunks w = (Inr (map chunk_file cs), write_chunks cs w)"
  by (simp add: split_pdf_def)

text \<open>
  Claim C1. For a document of at least one page and \<open>num_chunks \<ge> 1\<close>, \<open>split_pdf\<close>
  returns the paths of the chunks it writes; the page counts of the chunks add up to the
  number of pages, no chunk is empty, the concatenation of the chunks is the document, and
  the page ranges start at 0, end at the number of pages, each begin where the one before
  ends, and each hold the pages of the document in that range: the ranges are ascending,
  contiguous and non-overlapping, and every page is in exactly one chunk.
\<close>

theorem split_pdf_partition:
  assumes rd: "read_pdf w pdf_path = Inr pages"
    and T: "1 \<le> length pages" and n: "1 \<le> num_chunks"
  shows "\<exists>cs. split_chunks P pdf_path output_dir num_chunks pages = Inr cs
           \<and> split_pdf P pdf_path output_dir num_chunks w
                 = (Inr (map chunk_file cs), write_chunks cs w)
           \<and> sum_list (map (\<lambda>c. length (chunk_pages c)) cs) = length pages
           \<and> (\<forall>c \<in> set cs. chunk_pages c \<noteq> [])
           \<and> concat (map chunk_pages cs) = pages
           \<and> cs \<noteq> [] \<and> start_page (hd cs) = 0 \<and> end_page (last cs) = int (length pages)
           \<and> (\<forall>i. Suc i < length cs \<longrightarrow> end_page (cs ! i) = start_page (cs ! Suc i))
           \<and> (\<forall>c \<in> set cs. 0 \<le> start_page c \<and> start_page c < end_page c
                  \<and> end_page c \<le> int (length pages)
                  \<and> chunk_pages c
                       = take (nat (end_page c - start_page c)) (drop (nat (start_page c)) pages))"
proof -
  let ?T = "int (length pages)"
  define ppc where "ppc = max 1 (- ((- ?T) div num_chunks))"
  define K where "K = - ((- ?T) div ppc)"
  define mk where "mk = make_chunk P (default_dir P pdf_path output_dir)
                          (splitext_root P (basename P pdf_path)) pages ppc"
  define cs where "cs = map mk (py_range K)"
  have ppc: "1 \<le> ppc" by (simp add: ppc_def)
  have K: "(K - 1) * ppc < ?T" and K': "?T \<le> K * ppc"
    unfolding K_def using ceil_bounds [OF ppc, of ?T] by simp_all
  have K1: "1 \<le> K"
  proof (rule ccontr)
    assume "\<not> 1 \<le> K"
    then have "K \<le> 0" by simp
    then have "K * ppc \<le> 0" using ppc by (simp add: mult_le_0_iff)
    then show False using K' T by simp
  qed
  have sc: "split_chunks P pdf_path output_dir num_chunks pages = Inr cs"
    using split_chunks_eq(2) [of num_chunks P pdf_path output_dir pages] n
    by (simp add: cs_def mk_def K_def ppc_def)
  have len: "length cs = nat K" by (simp add: cs_def length_py_range)
  have nth: "cs ! i = mk (int i)" if "i < nat K" for i
    using that by (simp add: cs_def length_py_range py_range_nth)
  have shape: "start_page (cs ! i) = int i * ppc"
      "end_page (cs ! i) = min ((int i + 1) * ppc) ?T"
      "0 \<le> start_page (cs ! i)" "start_page (cs ! i) < end_page (cs ! i)"
      "end_page (cs ! i) \<le> ?T"
      "chunk_pages (cs ! i) = take (nat (end_page (cs ! i) - start_page (cs ! i)))
                                 (drop (nat (start_page (cs ! i))) pages)"
      "int i + 1 < K \<Longrightarrow> end_page (cs ! i) = (int i + 1) * ppc"
    if "i < nat K" for i
    using make_chunk_shape [OF ppc _ _ K, of "int i"] that by (simp_all add: nth mk_def)
  have cat: "concat (map chunk_pages cs) = pages"
  proof -
    have "concat (map chunk_pages cs)
            = concat (map (\<lambda>i. chunk_pages (mk i)) (map int [0..<nat K]))"
      by (simp add: cs_def py_range_def comp_def)
    also have "\<dots> = take (nat (min (int (nat K) * ppc) ?T)) pages"
      unfolding mk_def using take_chunks [OF ppc _ K, of "nat K"] K1 by simp
    also have "\<dots> = pages" using K' K1 by simp
    finally show ?thesis .
  qed
  have sum: "sum_list (map (\<lambda>c. length (chunk_pages c)) cs) = length pages"
  proof -
    have "length (concat (map chunk_pages cs)) = sum_list (map (\<lambda>c. length (chunk_pages c)) cs)"
      by (simp add: length_concat comp_def)
    then show ?thesis using cat by simp
  qed
  have each: "0 \<le> start_page c \<and> start_page c < end_page c \<and> end_page c \<le> ?T
                \<and> chunk_pages c
                     = take (nat (end_page c - start_page c)) (drop (nat (start_page c)) pages)"
    if "c \<in> set cs" for c
  proof -
    from that obtain i where "i < length cs" "c = cs ! i" by (auto simp: in_set_conv_nth)
    then show ?thesis using shape(3,4,5,6) [of i] len by simp
  qed
  have ne: "chunk_pages c \<noteq> []" if "c \<in> set cs" for c
  proof -
    note e = each [OF that]
    have a: "0 < nat (end_page c - start_page c)" using e by simp
    have b: "nat (start_page c) < length pages" using e by linarith
    have "length (chunk_pages c)
            = min (length pages - nat (start_page c)) (nat (end_page c - start_page c))"
      using e by (metis length_take length_drop)
    then have "0 < length (chunk_pages c)" using a b by simp
    then show ?thesis by auto
  qed
  have nonempty: "cs \<noteq> []" using len K1 by auto
  have hd: "start_page (hd cs) = 0"
    using shape(1) [of 0] K1 nonempty by (simp add: hd_conv_nth)
  have last: "end_page (last cs) = ?T"
  proof -
    have "last cs = cs ! (nat K - 1)" using nonempty len by (simp add: last_conv_nth)
    moreover have "int (nat K - 1) + 1 = K" using K1 by simp
    ultimately show ?thesis using shape(2) [of "nat K - 1"] K1 K' by simp
  qed
  have adj: "end_page (cs ! i) = start_page (cs ! Suc i)" if "Suc i < length cs" for i
  proof -
    have "int i + 1 < K" "i < nat K" "Suc i < nat K" using that len by simp_all
    then show ?thesis using shape(7) [of i] shape(1) [of "Suc i"] by simp
  qed
  show ?thesis
    using sc split_pdf_eq [OF rd sc] sum ne cat nonempty hd last adj each by blast
qed

lemma ceil_div_cases:
  fixes T p :: int
  assumes "p \<noteq> 0"
  shows "- ((- T) div p) = (if T mod p = 0 then T div p else T div p + 1)"
  using assms by (simp add: zdiv_zminus1_eq_if)

text \<open>
  Claim C2. For a document of at least one page and \<open>num_chunks \<ge> 1\<close>,
  \<open>pages_per_chunk\<close> is \<open>max 1 \<lceil>total_pages / num_chunks\<rceil>\<close>; every chunk but the last
  has exactly \<open>pages_per_chunk\<close> pages; the last has \<open>total_pages mod pages_per_chunk\<close>
  pages, or \<open>pages_per_chunk\<close> when that is zero; and when \<open>num_chunks\<close> exceeds the number
  of pages there are as many chunks as pages, of one page each.
\<close>

theorem split_pdf_chunk_sizes:
  assumes rd: "read_pdf w pdf_path = Inr pages"
    and T: "1 \<le> length pages" and n: "1 \<le> num_chunks"
  shows "\<exists>ppc cs. pages_per_chunk (int (length pages)) num_chunks = Inr ppc
           \<and> ppc = max 1 \<lceil>real (length pages) / real_of_int num_chunks\<rceil>
           \<and> split_chunks P pdf_path output_dir num_chunks pages = Inr cs
           \<and> split_pdf P pdf_path output_dir num_chunks w
                 = (Inr (map chunk_file cs), write_chunks cs w)
           \<and> cs \<noteq> []
           \<and> (\<forall>c \<in> set (butlast cs). int (length (chunk_pages c)) = ppc)
           \<and> int (length (chunk_pages (last cs)))
                 = (if int (length pages) mod ppc = 0 then ppc else int (length pages) mod ppc)
           \<and> (int (length pages) < num_chunks \<longrightarrow>
                 ppc = 1 \<and> length cs = length pages
                 \<and> (\<forall>c \<in> set cs. length (chunk_pages c) = 1))"
proof -
  let ?T = "int (length pages)"
  define ppc where "ppc = max 1 (- ((- ?T) div num_chunks))"
  define K where "K = - ((- ?T) div ppc)"
  define mk where "mk = make_chunk P (default_dir P pdf_path output_dir)
                          (splitext_root P (basename P pdf_path)) pages ppc"
  define cs where "cs = map mk (py_range K)"
  have ppc: "1 \<le> ppc" by (simp add: ppc_def)
  have K: "(K - 1) * ppc < ?T" and K': "?T \<le> K * ppc"
    unfolding K_def using ceil_bounds [OF ppc, of ?T] by simp_all
  have K1: "1 \<le> K"
  proof (rule ccontr)
    assume "\<not> 1 \<le> K"
    then have "K \<le> 0" by simp
    then have "K * ppc \<le> 0" using ppc by (simp add: mult_le_0_iff)
    then show False using K' T by simp
  qed
  have pp: "pages_per_chunk ?T num_chunks = Inr ppc"
    using split_chunks_eq(1) [of num_chunks pages] n by (simp add: ppc_def)
  have ce: "ppc = max 1 \<lceil>real (length pages) / real_of_int num_chunks\<rceil>"
  proof -
    have "ceil_div ?T num_chunks = Inr \<lceil>real_of_int ?T / real_of_int num_chunks\<rceil>"
      using ceil_div_eq [of num_chunks ?T] n by simp
    then have "- ((- ?T) div num_chunks) = \<lceil>real_of_int ?T / real_of_int num_chunks\<rceil>"
      using n by (simp add: ceil_div_def)
    then show ?thesis by (simp add: ppc_def)
  qed
  have sc: "split_chunks P pdf_path output_dir num_chunks pages = Inr cs"
    using split_chunks_eq(2) [of num_chunks P pdf_path output_dir pages] n
    by (simp add: cs_def mk_def K_def ppc_def)
  have len: "length cs = nat K" by (simp add: cs_def length_py_range)
  have nonempty: "cs \<noteq> []" using len K1 by auto
  have nth: "cs ! i = mk (int i)" if "i < nat K" for i
    using that by (simp add: cs_def length_py_range py_range_nth)
  have size: "int (length (chunk_pages (cs ! i))) = min ((int i + 1) * ppc) ?T - int i * ppc"
    if "i < nat K" for i
    using length_chunk_pages [OF ppc _ _ K, of "int i"] that by (simp add: nth mk_def)
  have full: "int (length (chunk_pages c)) = ppc" if "c \<in> set (butlast cs)" for c
  proof -
    from that obtain i where i: "i < length (butlast cs)" "c = butlast cs ! i"
      by (auto simp: in_set_conv_nth)
    then have i': "i < nat K - 1" "c = cs ! i" using len by (simp_all add: nth_butlast)
    then have "int i + 1 \<le> K - 1" by linarith
    then have "(int i + 1) * ppc \<le> (K - 1) * ppc" using ppc by (simp add: mult_right_mono)
    then have "min ((int i + 1) * ppc) ?T = (int i + 1) * ppc" using K by simp
    then show ?thesis using size [of i] i' by (simp add: algebra_simps)
  qed
  have Kc: "K = (if ?T mod ppc = 0 then ?T div ppc else ?T div ppc + 1)"
    unfolding K_def using ceil_div_cases [of ppc ?T] ppc by simp
  have rest: "int (length (chunk_pages (last cs)))
                = (if ?T mod ppc = 0 then ppc else ?T mod ppc)"
  proof -
    have l: "last cs = cs ! (nat K - 1)" using nonempty len by (simp add: last_conv_nth)
    have k: "int (nat K - 1) = K - 1" using K1 by simp
    have "int (length (chunk_pages (last cs))) = min (K * ppc) ?T - (K - 1) * ppc"
      using size [of "nat K - 1"] K1 l k by simp
    also have "\<dots> = ?T - (K - 1) * ppc" using K' by simp
    also have "\<dots> = (if ?T mod ppc = 0 then ppc else ?T mod ppc)"
    proof -
      have m: "?T - ppc * (?T div ppc) = ?T mod ppc" by (rule minus_mult_div_eq_mod)
      have a: "?T - (?T div ppc - 1) * ppc = ?T - ppc * (?T div ppc) + ppc"
        by (simp add: algebra_simps)
      have b: "?T - (?T div ppc + 1 - 1) * ppc = ?T - ppc * (?T div ppc)"
        by (simp add: algebra_simps)
      show ?thesis unfolding Kc using a b m by (simp del: minus_mult_div_eq_mod)
    qed
    finally show ?thesis .
  qed
  have small: "ppc = 1 \<and> length cs = length pages \<and> (\<forall>c \<in> set cs. length (chunk_pages c) = 1)"
    if lt: "?T < num_chunks"
  proof -
    have "?T mod num_chunks = ?T" "?T div num_chunks = 0" "?T \<noteq> 0" using T lt by auto
    then have "(- ?T) div num_chunks = - 1"
      using n by (simp add: zdiv_zminus1_eq_if)
    then have p1: "ppc = 1" by (simp add: ppc_def)
    then have "K = ?T" by (simp add: K_def)
    then have l: "length cs = length pages" using len by simp
    have "length (chunk_pages c) = 1" if "c \<in> set cs" for c
    proof -
      have "c \<in> set (butlast cs) \<or> c = last cs"
        using that nonempty by (metis append_butlast_last_id in_set_conv_decomp_last
          Un_iff insert_iff list.set(2) set_append empty_iff list.set(1))
      then show ?thesis using full [of c] rest p1 by auto
    qed
    then show ?thesis using p1 l by blast
  qed
  show ?thesis
    using pp ce sc split_pdf_eq [OF rd sc] nonempty full rest small by blast
qed

text \<open>
  Claim C3, amended. On a document of no pages \<open>split_pdf\<close> writes nothing and returns the
  empty list of chunks for every \<open>num_chunks\<close> other than zero; for \<open>num_chunks = 0\<close> the
  division raises \<^verbatim>\<open>ZeroDivisionError\<close>.
\<close>

theorem split_pdf_empty_document:
  assumes "read_pdf w pdf_path = Inr []"
  shows "split_pdf P pdf_path output_dir num_chunks w =
           (if num_chunks = 0 then (Inl (Exn ZeroDivisionError None ''division by zero''), w)
            else (Inr [], w))"
  using assms
  by (simp add: split_pdf_def split_chunks_def pages_per_chunk_def ceil_div_def py_range_def
      write_chunks_def)

theorem split_pdf_partition_witness:
  "read_pdf (sample_world [Page 0, Page 1, Page 2]) ''doc.pdf'' = Inr [Page 0, Page 1, Page 2]
   \<and> (\<exists>cs. split_chunks sample_library ''doc.pdf'' None 2 [Page 0, Page 1, Page 2] = Inr cs
           \<and> sum_list (map (\<lambda>c. length (chunk_pages c)) cs) = 3
           \<and> (\<forall>c \<in> set cs. chunk_pages c \<noteq> [])
           \<and> concat (map chunk_pages cs) = [Page 0, Page 1, Page 2])"
proof -
  have h1: "read_pdf (sample_world [Page 0, Page 1, Page 2]) ''doc.pdf''
              = Inr [Page 0, Page 1, Page 2]"
    by (simp add: read_pdf_def sample_world_def)
  have h2: "1 \<le> length [Page 0, Page 1, Page 2]" by simp
  have h3: "(1::int) \<le> 2" by simp
  show ?thesis
    using h1 split_pdf_partition [OF h1 h2 h3, of sample_library None] by auto
qed

theorem split_pdf_chunk_sizes_witness:
  "read_pdf (sample_world [Page 0, Page 1, Page 2]) ''doc.pdf'' = Inr [Page 0, Page 1, Page 2]
   \<and> (\<exists>cs. split_chunks sample_library ''doc.pdf'' None 5 [Page 0, Page 1, Page 2] = Inr cs
           \<and> pages_per_chunk 3 5 = Inr 1
           \<and> length cs = 3 \<and> (\<forall>c \<in> set cs. length (chunk_pages c) = 1))"
proof -
  have h1: "read_pdf (sample_world [Page 0, Page 1, Page 2]) ''doc.pdf''
              = Inr [Page 0, Page 1, Page 2]"
    by (simp add: read_pdf_def sample_world_def)
  have h2: "1 \<le> length [Page 0, Page 1, Page 2]" by simp
  have h3: "(1::int) \<le> 5" by simp
  show ?thesis
    using h1 split_pdf_chunk_sizes [OF h1 h2 h3, of sample_library None] by auto
qed

text \<open>
  Claim C3 says that \<open>split_pdf\<close> fails with an \<^verbatim>\<open>InvalidDocumentError\<close> on a document of no
  pages. The program has no such error: on a document of no pages and \<open>num_chunks = 3\<close> the
  loop runs zero times and \<open>split_pdf\<close> returns the empty list of chunks.
\<close>

theorem split_pdf_empty_counterexample:
  "fst (split_pdf sample_library ''doc.pdf'' None 3 (sample_world [])) = Inr []
   \<and> \<not> (\<exists>e. fst (split_pdf sample_library ''doc.pdf'' None 3 (sample_world [])) = Inl e)"
  by (simp add: split_pdf_def split_chunks_def pages_per_chunk_def ceil_div_def py_range_def
      write_chunks_def read_pdf_def sample_world_def)

theorem split_pdf_empty_document_witness:
  "read_pdf (sample_world []) ''doc.pdf'' = Inr []
   \<and> split_pdf sample_library ''doc.pdf'' None 3 (sample_world []) = (Inr [], sample_world [])"
proof -
  have h: "read_pdf (sample_world []) ''doc.pdf'' = Inr []"
    by (simp add: read_pdf_def sample_world_def)
  show ?thesis using h split_pdf_empty_document [OF h, of sample_library None 3] by simp
qed

section \<open>Properties of retry_on_error\<close>










section \<open>Properties of the conversion of one document\<close>

lemma retry_loop_preserves:
  assumes "\<And>s. I s \<Longrightarrow> I (snd (func s))"
  shows "I s \<Longrightarrow> I (fst (snd (retry_loop R name func rs delay lst (s, l))))"
proof (induction rs arbitrary: delay lst s l)
  case Nil
  then show ?case by simp
next
  case (Cons r rs)
  have "I (snd (func s))" using assms Cons.prems by blast
  then show ?case using Cons.IH
    by (cases "func s") (auto simp: sleep_def split: sum.splits)
qed

lemma retry_on_error_preserves:
  assumes "\<And>s. I s \<Longrightarrow> I (snd (func s))" and "I (fst sl)"
  shows "I (fst (snd (retry_on_error R name func sl)))"
  using retry_loop_preserves [of I func "fst sl" R name _ _ _ "snd sl"] assms
  by (simp add: retry_on_error_def)

lemma files_on_remote: "files (snd (on_remote f w)) = files w"
  by (simp add: on_remote_def split: prod.splits)

lemma files_on_remote_eq: "on_remote f w = (x, w') \<Longrightarrow> files w' = files w"
  using files_on_remote [of f w] by simp

lemma files_upload_func: "files (snd (upload_file_to_ocr_service_func P S p w)) = files w"
  by (auto simp: upload_file_to_ocr_service_func_def files_on_remote
      split: option.splits prod.splits sum.splits dest!: files_on_remote_eq)

lemma files_upload: "files (fst (snd (upload_file_to_ocr_service P S p st))) = files (fst st)"
  unfolding upload_file_to_ocr_service_def
  by (rule retry_on_error_preserves [where I = "\<lambda>w. files w = files (fst st)"])
     (simp_all add: files_upload_func)

lemma files_process: "files (fst (snd (process_with_ocr S u m st))) = files (fst st)"
  unfolding process_with_ocr_def
  by (rule retry_on_error_preserves [where I = "\<lambda>w. files w = files (fst st)"])
     (simp_all add: files_on_remote)





lemma pdf_step_fails_None:
  assumes "pdf_step_fails P S api_key pdf_path model (w, l)"
  shows "fst (convert_pdf_to_markdown P S api_key pdf_path output_path model (w, l)) = Inr None
       \<and> files (fst (snd (convert_pdf_to_markdown P S api_key pdf_path output_path model (w, l))))
           = files w"
proof (cases "exists w pdf_path")
  case False
  then show ?thesis by (simp add: convert_pdf_to_markdown_def)
next
  case True
  obtain c w1 where c: "on_remote (new_client S api_key) w = (c, w1)"
    by (cases "on_remote (new_client S api_key) w")
  have f1: "files w1 = files w" using files_on_remote_eq [OF c] .
  show ?thesis
  proof (cases c)
    case (Some e)
    then show ?thesis using True c f1
      by (simp add: convert_pdf_to_markdown_def convert_pdf_try_def)
  next
    case None
    obtain u st2 where u: "upload_file_to_ocr_service P S pdf_path (w1, l) = (u, st2)"
      by (cases "upload_file_to_ocr_service P S pdf_path (w1, l)")
    have f2: "files (fst st2) = files w"
      using files_upload [of P S pdf_path "(w1, l)"] u f1 by simp
    show ?thesis
    proof (cases u)
      case (Inl e)
      then show ?thesis using True c None u f2
        by (simp add: convert_pdf_to_markdown_def convert_pdf_try_def)
    next
      case (Inr url)
      obtain o3 st3 where o: "process_with_ocr S url model st2 = (o3, st3)"
        by (cases "process_with_ocr S url model st2")
      have f3: "files (fst st3) = files w"
        using files_process [of S url model st2] o f2 by simp
      have "isl o3" using assms True c None u Inr o by (simp add: pdf_step_fails_def)
      then obtain e where "o3 = Inl e" by (cases o3) auto
      then show ?thesis using True c None u Inr o f3
        by (simp add: convert_pdf_to_markdown_def convert_pdf_try_def)
    qed
  qed
qed


text \<open>
  Claim C9 says that \<open>convert_pdf_to_markdown\<close> fails with a \<^verbatim>\<open>ConversionError\<close> when the
  upload or the OCR call fails. The program has no such error: here the OCR call raises an
  exception that is not retried, and \<open>convert_pdf_to_markdown\<close> returns \<^verbatim>\<open>None\<close>.
\<close>

theorem convert_pdf_failed_ocr_counterexample:
  "fst (process_with_ocr (sample_service ''doc'' (Inr ''{}'')) ''doc'' ''m''
          (sample_world [Page 0], [Invoke ''upload_file_to_ocr_service'']))
     = Inl (Exn OtherException (Some 400) ''bad request'')
   \<and> fst (convert_pdf_to_markdown sample_library (sample_service ''doc'' (Inr ''{}'')) ''key''
            ''doc.pdf'' None ''m'' (sample_world [Page 0], [])) = Inr None"
  by (simp add: convert_pdf_to_markdown_def convert_pdf_try_def exists_def sample_world_def
      sample_service_def sample_library_def sample_basename_def sample_splitext_root_def
      on_remote_def upload_file_to_ocr_service_def process_with_ocr_def retry_on_error_def
      api_retry_def py_range_def upload_file_to_ocr_service_func_def upt_conv_Cons)

text \<open>
  Claim C9, amended. When the client has been created and the decorated upload raises (its
  retries are exhausted, or the exception is not retryable), or the upload returns and the
  decorated OCR call raises, \<open>convert_pdf_to_markdown\<close> raises nothing: it returns \<^verbatim>\<open>None\<close>
  and leaves the files as they were.
\<close>

theorem convert_pdf_failed_step_returns_None:
  assumes "exists w pdf_path" and "on_remote (new_client S api_key) w = (None, w1)"
    and "isl (fst (upload_file_to_ocr_service P S pdf_path (w1, l)))
         \<or> (\<exists>signed_url st2. upload_file_to_ocr_service P S pdf_path (w1, l) = (Inr signed_url, st2)
               \<and> isl (fst (process_with_ocr S signed_url model st2)))"
  shows "fst (convert_pdf_to_markdown P S api_key pdf_path output_path model (w, l)) = Inr None
       \<and> files (fst (snd (convert_pdf_to_markdown P S api_key pdf_path output_path model (w, l))))
           = files w"
proof -
  have "pdf_step_fails P S api_key pdf_path model (w, l)"
    using assms by (auto simp: pdf_step_fails_def split: sum.splits prod.splits)
  then show ?thesis by (rule pdf_step_fails_None)
qed

theorem convert_pdf_failed_step_returns_None_witness:
  "exists (sample_world [Page 0]) ''doc.pdf''
   \<and> on_remote (new_client (sample_service ''doc'' (Inr ''{}'')) ''key'') (sample_world [Page 0])
        = (None, sample_world [Page 0])
   \<and> upload_file_to_ocr_service sample_library (sample_service ''doc'' (Inr ''{}'')) ''doc.pdf''
        (sample_world [Page 0], [])
        = (Inr ''doc'', sample_world [Page 0], [Invoke ''upload_file_to_ocr_service''])
   \<and> isl (fst (process_with_ocr (sample_service ''doc'' (Inr ''{}'')) ''doc'' ''m''
                 (sample_world [Page 0], [Invoke ''upload_file_to_ocr_service''])))
   \<and> fst (convert_pdf_to_markdown sample_library (sample_service ''doc'' (Inr ''{}'')) ''key''
            ''doc.pdf'' (Some ''out.md'') ''m'' (sample_world [Page 0], [])) = Inr None
   \<and> files (fst (snd (convert_pdf_to_markdown sample_library (sample_service ''doc'' (Inr ''{}''))
            ''key'' ''doc.pdf'' (Some ''out.md'') ''m'' (sample_world [Page 0], []))))
        = files (sample_world [Page 0])"
proof -
  let ?S = "sample_service ''doc'' (Inr ''{}'')"
  let ?w = "sample_world [Page 0]"
  have h1: "exists ?w ''doc.pdf''" by (simp add: exists_def sample_world_def)
  have h2: "on_remote (new_client ?S ''key'') ?w = (None, ?w)"
    by (simp add: on_remote_def sample_service_def sample_world_def)
  have up: "upload_file_to_ocr_service sample_library ?S ''doc.pdf'' (?w, [])
              = (Inr ''doc'', ?w, [Invoke ''upload_file_to_ocr_service''])"
    by (simp add: sample_world_def
      sample_service_def sample_library_def sample_basename_def sample_splitext_root_def
      on_remote_def upload_file_to_ocr_service_def retry_on_error_def
      api_retry_def py_range_def upload_file_to_ocr_service_func_def upt_conv_Cons)
  have oc: "isl (fst (process_with_ocr ?S ''doc'' ''m'' (?w, [Invoke ''upload_file_to_ocr_service''])))"
    by (simp add: sample_world_def sample_service_def
      on_remote_def process_with_ocr_def retry_on_error_def
      api_retry_def py_range_def upt_conv_Cons)
  have h3: "isl (fst (upload_file_to_ocr_service sample_library ?S ''doc.pdf'' (?w, [])))
         \<or> (\<exists>signed_url st2. upload_file_to_ocr_service sample_library ?S ''doc.pdf'' (?w, [])
                 = (Inr signed_url, st2)
               \<and> isl (fst (process_with_ocr ?S signed_url ''m'' st2)))"
    using up oc by simp
  show ?thesis
    using h1 h2 up oc
      convert_pdf_failed_step_returns_None [OF h1 h2 h3, where output_path = "Some ''out.md''"]
    by simp
qed





section \<open>Properties of process_pdf_in_chunks\<close>

lemma sleeps_shift:
  "concat (map (\<lambda>m. [Invoke a, Sleep (2 * (real (j + m) + 1))]) [0..<Suc k])
     = [Invoke a, Sleep (2 * (real j + 1))]
         @ concat (map (\<lambda>m. [Invoke a, Sleep (2 * (real (Suc j + m) + 1))]) [0..<k])"
proof -
  have "[0..<Suc k] = 0 # map Suc [0..<k]" by (simp add: upt_conv_Cons map_Suc_upt del: upt_Suc)
  then show ?thesis by (simp add: comp_def del: upt_Suc)
qed

text \<open>
  The attempts on one chunk, from the value \<open>j\<close> of \<^verbatim>\<open>retry\<close> on: \<open>k\<close> calls with the sleeps
  between them, ending with an output \<open>r\<close> or, after the last value, with the ordinal in
  \<^verbatim>\<open>failed_chunks\<close>. \<open>Inv\<close> is any property of \<^verbatim>\<open>chunk_outputs\<close> and the state that the
  conversion keeps and that holds of an output it returns.
\<close>

lemma retry_chunk_shape:
  assumes step: "\<And>s r s' outs. Inv outs s \<Longrightarrow> conv cp cop s = (r, s') \<Longrightarrow>
                   Inv outs s' \<and> (\<forall>p. r = Inr (Some p) \<longrightarrow> Inv (outs @ [p]) s' \<and> Q p)"
  shows "j \<le> 2 \<Longrightarrow> Inv outs s \<Longrightarrow>
         \<exists>k r s'. 1 \<le> k \<and> k \<le> 3 - j \<and> (r = None \<longrightarrow> k = 3 - j)
           \<and> (\<forall>p. r = Some p \<longrightarrow> p \<noteq> [] \<and> Q p)
           \<and> Inv (outs @ (case r of None \<Rightarrow> [] | Some p \<Rightarrow> [p])) s'
           \<and> retry_chunk conv i cp cop (map int [j..<3]) (outs, fl) (s, pl)
               = ((outs @ (case r of None \<Rightarrow> [] | Some p \<Rightarrow> [p]),
                   fl @ (case r of None \<Rightarrow> [i + 1] | Some p \<Rightarrow> [])),
                  s',
                  pl @ concat (map (\<lambda>m. [Invoke (i + 1), Sleep (2 * (real (j + m) + 1))]) [0..<k - 1])
                     @ [Invoke (i + 1)])"
proof (induction "2 - j" arbitrary: j s pl)
  case 0
  then have j: "j = 2" by simp
  have l: "map int [j..<3] = [2]" using j by (simp add: upt_conv_Cons)
  obtain r s' where c: "conv cp cop s = (r, s')" by (cases "conv cp cop s")
  note st = step [OF "0.prems"(2) c]
  show ?case
  proof (cases "\<exists>p. r = Inr (Some p) \<and> p \<noteq> []")
    case True
    then obtain p where p: "r = Inr (Some p)" "p \<noteq> []" by blast
    show ?thesis
      apply (rule exI [of _ 1], rule exI [of _ "Some p"], rule exI [of _ s'])
      using p c st j l by simp
  next
    case False
    show ?thesis
      apply (rule exI [of _ 1], rule exI [of _ None], rule exI [of _ s'])
      using False c st j l
      by (cases r; simp add: after_failure_def max_chunk_retries_def split: option.splits)
  qed
next
  case (Suc d)
  then have lt: "j < 2" and d: "d = 2 - Suc j" and le: "Suc j \<le> 2" by simp_all
  have l: "map int [j..<3] = int j # map int [Suc j..<3]"
    using lt by (simp add: upt_conv_Cons)
  obtain r s' where c: "conv cp cop s = (r, s')" by (cases "conv cp cop s")
  note st = step [OF Suc.prems(2) c]
  show ?case
  proof (cases "\<exists>p. r = Inr (Some p) \<and> p \<noteq> []")
    case True
    then obtain p where p: "r = Inr (Some p)" "p \<noteq> []" by blast
    show ?thesis
      apply (rule exI [of _ 1], rule exI [of _ "Some p"], rule exI [of _ s'])
      using p c st lt l by simp
  next
    case False
    have inv: "Inv outs s'" using st by simp
    from Suc.hyps(1) [OF d le inv, of "pl @ [Invoke (i + 1), Sleep (2 * (real j + 1))]"]
    obtain k r' s'' where ih: "1 \<le> k" "k \<le> 3 - Suc j" "r' = None \<longrightarrow> k = 3 - Suc j"
        "\<forall>p. r' = Some p \<longrightarrow> p \<noteq> [] \<and> Q p"
        "Inv (outs @ (case r' of None \<Rightarrow> [] | Some p \<Rightarrow> [p])) s''"
        "retry_chunk conv i cp cop (map int [Suc j..<3]) (outs, fl)
             (s', pl @ [Invoke (i + 1), Sleep (2 * (real j + 1))])
           = ((outs @ (case r' of None \<Rightarrow> [] | Some p \<Rightarrow> [p]),
               fl @ (case r' of None \<Rightarrow> [i + 1] | Some p \<Rightarrow> [])),
              s'',
              (pl @ [Invoke (i + 1), Sleep (2 * (real j + 1))])
                @ concat (map (\<lambda>m. [Invoke (i + 1), Sleep (2 * (real (Suc j + m) + 1))]) [0..<k - 1])
                @ [Invoke (i + 1)])"
      by blast
    have rc: "retry_chunk conv i cp cop (map int [j..<3]) (outs, fl) (s, pl)
            = retry_chunk conv i cp cop (map int [Suc j..<3]) (outs, fl)
                (s', pl @ [Invoke (i + 1), Sleep (2 * (real j + 1))])"
      unfolding l using False c lt
      by (cases r; simp add: after_failure_def max_chunk_retries_def split: option.splits)
    have k: "Suc k - 1 = Suc (k - 1)" using ih(1) by simp
    show ?thesis
      apply (rule exI [of _ "Suc k"], rule exI [of _ r'], rule exI [of _ s''])
      unfolding rc ih(6) k sleeps_shift using ih(1-5) lt by auto
  qed
qed

lemma py_range_chunk_retries: "py_range (max_chunk_retries + 1) = map int [0..<3]"
  by (simp add: py_range_def max_chunk_retries_def)

text \<open>
  The loop over the chunks: for every chunk, in the order of the list, a number \<open>k\<close> of
  attempts and an output \<open>r\<close> or none.
\<close>

lemma process_chunks_shape:
  assumes step: "\<And>cp cop s r s' outs. Inv outs s \<Longrightarrow> conv cp cop s = (r, s') \<Longrightarrow>
                   Inv outs s' \<and> (\<forall>p. r = Inr (Some p) \<longrightarrow> Inv (outs @ [p]) s' \<and> Q cp cop p)"
  shows "Inv outs s \<Longrightarrow>
         \<exists>krs s'. length krs = length cps
           \<and> (\<forall>(cp, k, r) \<in> set (zip cps krs). 1 \<le> k \<and> k \<le> 3 \<and> (r = None \<longrightarrow> k = 3)
                  \<and> (\<forall>p. r = Some p \<longrightarrow> p \<noteq> [] \<and> Q cp (chunk_output_path P op cp) p))
           \<and> Inv (outs @ concat (map (\<lambda>(k, r). case r of None \<Rightarrow> [] | Some p \<Rightarrow> [p]) krs)) s'
           \<and> process_chunks conv P op (enumerate i0 cps) (outs, fl) (s, pl)
               = ((outs @ concat (map (\<lambda>(k, r). case r of None \<Rightarrow> [] | Some p \<Rightarrow> [p]) krs),
                   fl @ concat (map (\<lambda>(i, k, r). case r of None \<Rightarrow> [i + 1] | Some p \<Rightarrow> [])
                                  (zip [i0..<i0 + length krs] krs))),
                  s',
                  pl @ concat (map (\<lambda>(i, k, r).
                           concat (map (\<lambda>m. [Invoke (i + 1), Sleep (2 * (real m + 1))]) [0..<k - 1])
                             @ [Invoke (i + 1)])
                         (zip [i0..<i0 + length krs] krs)))"
proof (induction cps arbitrary: i0 outs fl s pl)
  case Nil
  then show ?case by simp
next
  case (Cons cp cps)
  let ?cop = "chunk_output_path P op cp"
  have step1: "\<And>s r s' outs. Inv outs s \<Longrightarrow> conv cp ?cop s = (r, s') \<Longrightarrow>
                   Inv outs s' \<and> (\<forall>p. r = Inr (Some p) \<longrightarrow> Inv (outs @ [p]) s' \<and> Q cp ?cop p)"
    using step by blast
  have "\<exists>k r s1. 1 \<le> k \<and> k \<le> 3 - 0 \<and> (r = None \<longrightarrow> k = 3 - 0)
           \<and> (\<forall>p. r = Some p \<longrightarrow> p \<noteq> [] \<and> Q cp ?cop p)
           \<and> Inv (outs @ (case r of None \<Rightarrow> [] | Some p \<Rightarrow> [p])) s1
           \<and> retry_chunk conv i0 cp ?cop (map int [0..<3]) (outs, fl) (s, pl)
               = ((outs @ (case r of None \<Rightarrow> [] | Some p \<Rightarrow> [p]),
                   fl @ (case r of None \<Rightarrow> [i0 + 1] | Some p \<Rightarrow> [])),
                  s1,
                  pl @ concat (map (\<lambda>m. [Invoke (i0 + 1), Sleep (2 * (real (0 + m) + 1))]) [0..<k - 1])
                     @ [Invoke (i0 + 1)])"
  proof (rule retry_chunk_shape [where Inv = Inv and Q = "Q cp ?cop"])
    show "Inv outs s' \<and> (\<forall>p. r = Inr (Some p) \<longrightarrow> Inv (outs @ [p]) s' \<and> Q cp ?cop p)"
      if "Inv outs s" "conv cp ?cop s = (r, s')" for s r s' outs
      using step1 that by blast
    show "0 \<le> (2::nat)" by simp
    show "Inv outs s" by (rule Cons.prems)
  qed
  then obtain k r s1 where one: "1 \<le> k" "k \<le> 3" "r = None \<longrightarrow> k = 3"
      "\<forall>p. r = Some p \<longrightarrow> p \<noteq> [] \<and> Q cp ?cop p"
      "Inv (outs @ (case r of None \<Rightarrow> [] | Some p \<Rightarrow> [p])) s1"
      "retry_chunk conv i0 cp ?cop (map int [0..<3]) (outs, fl) (s, pl)
         = ((outs @ (case r of None \<Rightarrow> [] | Some p \<Rightarrow> [p]),
             fl @ (case r of None \<Rightarrow> [i0 + 1] | Some p \<Rightarrow> [])),
            s1,
            pl @ concat (map (\<lambda>m. [Invoke (i0 + 1), Sleep (2 * (real (0 + m) + 1))]) [0..<k - 1])
               @ [Invoke (i0 + 1)])"
    by auto
  let ?outs1 = "outs @ (case r of None \<Rightarrow> [] | Some p \<Rightarrow> [p])"
  let ?fl1 = "fl @ (case r of None \<Rightarrow> [i0 + 1] | Some p \<Rightarrow> [])"
  let ?pl1 = "pl @ concat (map (\<lambda>m. [Invoke (i0 + 1), Sleep (2 * (real (0 + m) + 1))]) [0..<k - 1])
               @ [Invoke (i0 + 1)]"
  from Cons.IH [OF one(5), of "Suc i0" ?fl1 ?pl1]
  obtain krs s' where ih: "length krs = length cps"
      "\<forall>(cp, k, r) \<in> set (zip cps krs). 1 \<le> k \<and> k \<le> 3 \<and> (r = None \<longrightarrow> k = 3)
                  \<and> (\<forall>p. r = Some p \<longrightarrow> p \<noteq> [] \<and> Q cp (chunk_output_path P op cp) p)"
      "Inv (?outs1 @ concat (map (\<lambda>(k, r). case r of None \<Rightarrow> [] | Some p \<Rightarrow> [p]) krs)) s'"
      "process_chunks conv P op (enumerate (Suc i0) cps) (?outs1, ?fl1) (s1, ?pl1)
         = ((?outs1 @ concat (map (\<lambda>(k, r). case r of None \<Rightarrow> [] | Some p \<Rightarrow> [p]) krs),
             ?fl1 @ concat (map (\<lambda>(i, k, r). case r of None \<Rightarrow> [i + 1] | Some p \<Rightarrow> [])
                                  (zip [Suc i0..<Suc i0 + length krs] krs))),
            s',
            ?pl1 @ concat (map (\<lambda>(i, k, r).
                           concat (map (\<lambda>m. [Invoke (i + 1), Sleep (2 * (real m + 1))]) [0..<k - 1])
                             @ [Invoke (i + 1)])
                         (zip [Suc i0..<Suc i0 + length krs] krs)))"
    by blast
  have z: "zip [i0..<i0 + length ((k, r) # krs)] ((k, r) # krs)
             = (i0, k, r) # zip [Suc i0..<Suc i0 + length krs] krs"
    by (simp add: upt_conv_Cons del: upt_Suc)
  have pc: "process_chunks conv P op (enumerate i0 (cp # cps)) (outs, fl) (s, pl)
              = process_chunks conv P op (enumerate (Suc i0) cps) (?outs1, ?fl1) (s1, ?pl1)"
    using one(6) by (simp add: py_range_chunk_retries)
  show ?case
    apply (rule exI [of _ "(k, r) # krs"], rule exI [of _ s'])
    unfolding pc ih(4) z using one(1-4) ih(1-3) by (cases r) simp_all
qed

text \<open>
  Claim C6. The loop of \<open>process_pdf_in_chunks\<close> goes through the chunks in the order of
  their ordinals, with any conversion, whether it returns a path, returns \<^verbatim>\<open>None\<close> or
  raises: for each chunk there are a number \<open>k\<close> of attempts, between 1 and
  \<open>max_chunk_retries + 1 = 3\<close>, and an output \<open>r\<close> or none. The log of the loop is, chunk
  after chunk, the \<open>k\<close> calls for that chunk with a sleep of \<open>2 * m\<close> seconds after the
  attempt number \<open>m\<close> that is not the last; a chunk without output has had all
  \<open>max_chunk_retries + 1\<close> attempts, its ordinal is in \<^verbatim>\<open>failed_chunks\<close>, and the loop goes on
  with the next chunk: no chunk is left out. The same holds of a run of
  \<open>process_pdf_in_chunks\<close> on the chunks \<open>split_pdf\<close> returns.
\<close>

theorem process_chunks_attempts:
  fixes conv :: "path \<Rightarrow> path option \<Rightarrow> 's \<Rightarrow> (exn + path option) \<times> 's" and st :: "'r st"
    and P S api_key pdf_path output_path num_chunks model
  defines "attempts \<equiv> \<lambda>(i, k, r :: path option).
             concat (map (\<lambda>m. [Invoke (i + 1), Sleep (2 * (real m + 1))]) [0..<k - 1])
               @ [Invoke (i + 1 :: nat)]"
    and "output_of \<equiv> \<lambda>(k :: nat, r :: path option). case r of None \<Rightarrow> [] | Some p \<Rightarrow> [p]"
    and "failure_of \<equiv> \<lambda>(i :: nat, k :: nat, r :: path option).
             case r of None \<Rightarrow> [i + 1] | Some p \<Rightarrow> []"
    and "run \<equiv> process_pdf_in_chunks P S api_key pdf_path output_path num_chunks model st"
  shows "(\<exists>krs s'. length krs = length chunk_paths
            \<and> (\<forall>(k, r) \<in> set krs. 1 \<le> k \<and> k \<le> nat max_chunk_retries + 1
                  \<and> (r = None \<longrightarrow> k = nat max_chunk_retries + 1))
            \<and> process_chunks conv P output_path (enumerate 0 chunk_paths) ([], []) (s, [])
                = ((concat (map output_of krs),
                    concat (map failure_of (zip [0..<length chunk_paths] krs))),
                   s', concat (map attempts (zip [0..<length chunk_paths] krs))))
       \<and> (\<forall>paths w1. split_pdf P pdf_path None num_chunks (fst st) = (Inr paths, w1) \<longrightarrow>
            (\<exists>krs. length krs = length paths
               \<and> (\<forall>(k, r) \<in> set krs. 1 \<le> k \<and> k \<le> nat max_chunk_retries + 1
                     \<and> (r = None \<longrightarrow> k = nat max_chunk_retries + 1))
               \<and> chunk_log run = concat (map attempts (zip [0..<length paths] krs))
               \<and> outputs run = concat (map output_of krs)
               \<and> failed run = concat (map failure_of (zip [0..<length paths] krs))))"
proof -
  have gen: "\<exists>krs s'. length krs = length cps
            \<and> (\<forall>(k, r) \<in> set krs. 1 \<le> k \<and> k \<le> nat max_chunk_retries + 1
                  \<and> (r = None \<longrightarrow> k = nat max_chunk_retries + 1))
            \<and> process_chunks c P output_path (enumerate 0 cps) ([], []) (s0, [])
                = ((concat (map output_of krs),
                    concat (map failure_of (zip [0..<length cps] krs))),
                   s', concat (map attempts (zip [0..<length cps] krs)))"
    for c :: "path \<Rightarrow> path option \<Rightarrow> 't \<Rightarrow> (exn + path option) \<times> 't" and cps s0
  proof -
    have "\<exists>krs s'. length krs = length cps
           \<and> (\<forall>(cp, k, r) \<in> set (zip cps krs). 1 \<le> k \<and> k \<le> 3 \<and> (r = None \<longrightarrow> k = 3)
                  \<and> (\<forall>p. r = Some p \<longrightarrow> p \<noteq> [] \<and> True))
           \<and> True
           \<and> process_chunks c P output_path (enumerate 0 cps) ([], []) (s0, [])
               = (([] @ concat (map (\<lambda>(k, r). case r of None \<Rightarrow> [] | Some p \<Rightarrow> [p]) krs),
                   [] @ concat (map (\<lambda>(i, k, r). case r of None \<Rightarrow> [i + 1] | Some p \<Rightarrow> [])
                                  (zip [0..<0 + length krs] krs))),
                  s',
                  [] @ concat (map (\<lambda>(i, k, r).
                           concat (map (\<lambda>m. [Invoke (i + 1), Sleep (2 * (real m + 1))]) [0..<k - 1])
                             @ [Invoke (i + 1)])
                         (zip [0..<0 + length krs] krs)))"
      by (rule process_chunks_shape [where Inv = "\<lambda>_ _. True" and Q = "\<lambda>_ _ _. True"]) simp_all
    then obtain krs s' where k0: "length krs = length cps"
      "\<forall>(cp, k, r) \<in> set (zip cps krs). 1 \<le> k \<and> k \<le> 3 \<and> (r = None \<longrightarrow> k = 3)
                  \<and> (\<forall>p. r = Some p \<longrightarrow> p \<noteq> [] \<and> True)"
      "process_chunks c P output_path (enumerate 0 cps) ([], []) (s0, [])
               = (([] @ concat (map (\<lambda>(k, r). case r of None \<Rightarrow> [] | Some p \<Rightarrow> [p]) krs),
                   [] @ concat (map (\<lambda>(i, k, r). case r of None \<Rightarrow> [i + 1] | Some p \<Rightarrow> [])
                                  (zip [0..<0 + length krs] krs))),
                  s',
                  [] @ concat (map (\<lambda>(i, k, r).
                           concat (map (\<lambda>m. [Invoke (i + 1), Sleep (2 * (real m + 1))]) [0..<k - 1])
                             @ [Invoke (i + 1)])
                         (zip [0..<0 + length krs] krs)))"
      by blast
    have k: "length krs = length cps"
      "\<forall>(cp, k, r) \<in> set (zip cps krs). 1 \<le> k \<and> k \<le> 3 \<and> (r = None \<longrightarrow> k = 3)"
      "process_chunks c P output_path (enumerate 0 cps) ([], []) (s0, [])
               = ((concat (map output_of krs),
                   concat (map failure_of (zip [0..<length cps] krs))),
                  s', concat (map attempts (zip [0..<length cps] krs)))"
      using k0(1) apply simp
      using k0(2) apply fastforce
      unfolding k0(3) attempts_def output_of_def failure_of_def
      by (simp only: append_Nil add_0 k0(1))
    have "\<forall>(k, r) \<in> set krs. 1 \<le> k \<and> k \<le> nat max_chunk_retries + 1
                  \<and> (r = None \<longrightarrow> k = nat max_chunk_retries + 1)"
    proof -
      have "set krs = snd ` set (zip cps krs)" using k(1) by (metis map_snd_zip set_map)
      then show ?thesis using k(2) by (force simp: max_chunk_retries_def)
    qed
    then show ?thesis using k(1,3) by blast
  qed
  have pipe: "\<exists>krs. length krs = length paths
               \<and> (\<forall>(k, r) \<in> set krs. 1 \<le> k \<and> k \<le> nat max_chunk_retries + 1
                     \<and> (r = None \<longrightarrow> k = nat max_chunk_retries + 1))
               \<and> chunk_log run = concat (map attempts (zip [0..<length paths] krs))
               \<and> outputs run = concat (map output_of krs)
               \<and> failed run = concat (map failure_of (zip [0..<length paths] krs))"
    if sp: "split_pdf P pdf_path None num_chunks (fst st) = (Inr paths, w1)" for paths w1
  proof -
    from gen [of paths "\<lambda>chunk_path chunk_out.
                    convert_pdf_to_markdown P S api_key chunk_path chunk_out model" "(w1, snd st)"]
    obtain krs s' where k: "length krs = length paths"
      "\<forall>(k, r) \<in> set krs. 1 \<le> k \<and> k \<le> nat max_chunk_retries + 1
                  \<and> (r = None \<longrightarrow> k = nat max_chunk_retries + 1)"
      "process_chunks (\<lambda>chunk_path chunk_out.
                    convert_pdf_to_markdown P S api_key chunk_path chunk_out model)
          P output_path (enumerate 0 paths) ([], []) ((w1, snd st), [])
         = ((concat (map output_of krs), concat (map failure_of (zip [0..<length paths] krs))),
            s', concat (map attempts (zip [0..<length paths] krs)))"
      by blast
    have "chunk_log run = concat (map attempts (zip [0..<length paths] krs))
          \<and> outputs run = concat (map output_of krs)
          \<and> failed run = concat (map failure_of (zip [0..<length paths] krs))"
      unfolding run_def process_pdf_in_chunks_def sp using k(3)
      by (simp split: prod.splits)
    then show ?thesis using k(1,2) by blast
  qed
  show ?thesis using gen [of chunk_paths conv s] pipe by blast
qed











theorem process_chunks_attempts_witness:
  "fst (split_pdf sample_library ''doc.pdf'' None 3 (sample_world [Page 0, Page 1, Page 2]))
     = Inr [''split_pdfs/doc_chunk_001.pdf'', ''split_pdfs/doc_chunk_002.pdf'',
            ''split_pdfs/doc_chunk_003.pdf'']
   \<and> chunk_log (process_pdf_in_chunks sample_library (sample_service ''doc_chunk_002'' (Inr ''{}''))
         ''key'' ''doc.pdf'' (Some ''out.md'') 3 ''m'' (sample_world [Page 0, Page 1, Page 2], []))
       = [Invoke 1, Invoke 2, Sleep 2, Invoke 2, Sleep 4, Invoke 2, Invoke 3]
   \<and> (\<exists>krs :: (nat \<times> path option) list.
           length krs = length [''split_pdfs/doc_chunk_001.pdf'', ''split_pdfs/doc_chunk_002.pdf'',
                                ''split_pdfs/doc_chunk_003.pdf'']
         \<and> (\<forall>(k, r) \<in> set krs. 1 \<le> k \<and> k \<le> nat max_chunk_retries + 1
               \<and> (r = None \<longrightarrow> k = nat max_chunk_retries + 1))
         \<and> chunk_log (process_pdf_in_chunks sample_library
               (sample_service ''doc_chunk_002'' (Inr ''{}''))
               ''key'' ''doc.pdf'' (Some ''out.md'') 3 ''m''
               (sample_world [Page 0, Page 1, Page 2], []))
             = concat (map (\<lambda>(i, k, r).
                   concat (map (\<lambda>m. [Invoke (i + 1), Sleep (2 * (real m + 1))]) [0..<k - 1])
                     @ [Invoke (i + 1)])
                 (zip [0..<length [''split_pdfs/doc_chunk_001.pdf'',
                         ''split_pdfs/doc_chunk_002.pdf'', ''split_pdfs/doc_chunk_003.pdf'']] krs)))"
proof -
  let ?st = "(sample_world [Page 0, Page 1, Page 2], []) :: unit st"
  let ?S = "sample_service ''doc_chunk_002'' (Inr ''{}'')"
  let ?paths = "[''split_pdfs/doc_chunk_001.pdf'', ''split_pdfs/doc_chunk_002.pdf'',
            ''split_pdfs/doc_chunk_003.pdf'']"
  have h: "fst (split_pdf sample_library ''doc.pdf'' None 3 (sample_world [Page 0, Page 1, Page 2]))
     = Inr ?paths"
    by code_simp
  then have sp: "split_pdf sample_library ''doc.pdf'' None 3 (fst ?st)
     = (Inr ?paths, snd (split_pdf sample_library ''doc.pdf'' None 3 (fst ?st)))"
    by (simp add: prod_eq_iff)
  have lg: "chunk_log (process_pdf_in_chunks sample_library ?S
         ''key'' ''doc.pdf'' (Some ''out.md'') 3 ''m'' ?st)
       = [Invoke 1, Invoke 2, Sleep 2, Invoke 2, Sleep 4, Invoke 2, Invoke 3]"
    by code_simp
  from process_chunks_attempts [where st = ?st and P = sample_library and S = ?S
      and api_key = "''key''" and pdf_path = "''doc.pdf''" and output_path = "Some ''out.md''"
      and num_chunks = 3 and model = "''m''" and conv = "\<lambda>cp co s. (Inr None, s :: unit)"
      and chunk_paths = "[]" and s = "()"] sp
  have "\<exists>krs :: (nat \<times> path option) list. length krs = length ?paths
         \<and> (\<forall>(k, r) \<in> set krs. 1 \<le> k \<and> k \<le> nat max_chunk_retries + 1
               \<and> (r = None \<longrightarrow> k = nat max_chunk_retries + 1))
         \<and> chunk_log (process_pdf_in_chunks sample_library ?S
               ''key'' ''doc.pdf'' (Some ''out.md'') 3 ''m'' ?st)
             = concat (map (\<lambda>(i, k, r).
                   concat (map (\<lambda>m. [Invoke (i + 1), Sleep (2 * (real m + 1))]) [0..<k - 1])
                     @ [Invoke (i + 1)]) (zip [0..<length ?paths] krs))"
    by blast
  then show ?thesis using h lg by (intro conjI)
qed


section \<open>Outcome of process_pdf_in_chunks\<close>




end
